theory Spec2Isabelle
  imports Main "HOL-Library.Word"
begin

section \<open>The low memory killer of drivers/staging/android/lowmemorykiller.c\<close>

text \<open>
  The driver is one function, \<open>lowmem_shrink\<close>, compiled with \<open>SEC_ADJUST_LMK\<close> defined
  (line 42), so of every \<open>#ifdef SEC_ADJUST_LMK\<close> the first branch is the code. The
  target is a 32-bit ARM kernel: \<open>int\<close> and \<open>unsigned long\<close> are 32 bits wide and
  \<open>short\<close> is 16 bits wide. Additions and subtractions wrap, comparisons of \<open>int\<close>
  and \<open>short\<close> values are signed (\<open><s\<close>, \<open>\<le>s\<close>).

  The calls of \<open>lowmem_print\<close> only write to the kernel log and are left out, as are
  the RCU and task locks, which do not change any value the function computes.
\<close>

type_synonym c_int = "32 word"
type_synonym c_short = "16 word"
type_synonym c_ulong = "32 word"

subsection \<open>What the function takes from the rest of the kernel\<close>

text \<open>
  The constants \<open>OOM_SCORE_ADJ_MAX\<close> and \<open>OOM_ADJUST_MAX\<close> (linux/oom.h), \<open>HZ\<close> and the
  macro \<open>time_before_eq\<close> (linux/jiffies.h) are declared outside the driver. They are
  parameters of the model: every theorem below that does not fix them holds for all
  their values.
\<close>

record kernel =
  OOM_SCORE_ADJ_MAX :: int
  OOM_ADJUST_MAX :: int
  HZ :: c_ulong
  time_before_eq :: "c_ulong \<Rightarrow> c_ulong \<Rightarrow> bool"

text \<open>The counters that \<open>global_page_state\<close> reads.\<close>

record vm_stat =
  NR_FREE_PAGES :: c_ulong
  NR_INACTIVE_ANON :: c_ulong
  NR_ACTIVE_ANON :: c_ulong
  NR_INACTIVE_FILE :: c_ulong
  NR_ACTIVE_FILE :: c_ulong

text \<open>
  The module parameters: \<open>short lowmem_adj[6]\<close>, \<open>int lowmem_minfree[6]\<close> and the two
  element counts. The counts are only compared, so they are unbounded integers here.
\<close>

record lowmem_params =
  lowmem_adj :: "c_short list"
  lowmem_adj_size :: int
  lowmem_minfree :: "c_int list"
  lowmem_minfree_size :: int

definition wf_params :: "lowmem_params \<Rightarrow> bool" where
  "wf_params P \<longleftrightarrow> length (lowmem_adj P) = 6 \<and> length (lowmem_minfree P) = 6"

text \<open>
  One entry of the process list as the loop sees it. \<open>has_mm\<close> says that
  \<open>find_lock_task_mm(tsk)\<close> returns a thread \<open>p\<close>; the three fields after it are then
  read from \<open>p\<close>: \<open>test_tsk_thread_flag(p, TIF_MEMDIE)\<close>, \<open>p->signal->oom_score_adj\<close> and
  \<open>get_mm_rss(p->mm)\<close> as assigned to the \<open>int tasksize\<close>.
\<close>

record task_struct =
  pid :: int
  PF_KTHREAD :: bool
  has_mm :: bool
  TIF_MEMDIE :: bool
  oom_score_adj :: c_short
  mm_rss :: c_int

text \<open>
  What an invocation can change: the process list (the flag set on the victim), the
  static \<open>lowmem_deathpending_timeout\<close>, the SIGKILLs sent (positions in the process
  list, oldest first) and the number of calls of \<open>compact_nodes\<close>.
\<close>

record lmk_state =
  tasks :: "task_struct list"
  lowmem_deathpending_timeout :: c_ulong
  sigkill_sent :: "nat list"
  compact_calls :: nat

subsection \<open>Lines 78 to 107: the threshold check\<close>

definition effective_array_size :: "lowmem_params \<Rightarrow> int" where
  "effective_array_size P =
     (let array_size = 6;
          array_size = (if lowmem_adj_size P < array_size then lowmem_adj_size P
                        else array_size);
          array_size = (if lowmem_minfree_size P < array_size then lowmem_minfree_size P
                        else array_size)
      in array_size)"

text \<open>
  The \<open>for\<close> loop of line 96 from index \<open>i\<close> on; \<open>n\<close> is \<open>array_size\<close> (a negative
  \<open>array_size\<close> runs the body as often as 0 does) and the last argument is the
  value \<open>min_score_adj\<close> has when the loop is entered.
\<close>

function threshold_loop ::
  "lowmem_params \<Rightarrow> c_int \<Rightarrow> nat \<Rightarrow> nat \<Rightarrow> c_short \<Rightarrow> c_short" where
  "threshold_loop P avail i n min_score_adj =
     (if i < n then
        (if avail <s lowmem_minfree P ! i then lowmem_adj P ! i
         else threshold_loop P avail (Suc i) n min_score_adj)
      else min_score_adj)"
  by pat_completeness auto
termination
  by (relation "measure (\<lambda>(P, avail, i, n, m). n - i)") auto

declare threshold_loop.simps [simp del]

definition other_free :: "vm_stat \<Rightarrow> c_int" where
  "other_free vm = NR_FREE_PAGES vm"

definition other_file :: "vm_stat \<Rightarrow> c_int" where
  "other_file vm = NR_INACTIVE_FILE vm + NR_ACTIVE_FILE vm"

definition min_score_adj_init :: "kernel \<Rightarrow> c_short" where
  "min_score_adj_init K = word_of_int (OOM_SCORE_ADJ_MAX K + 1)"

definition choose_min_score :: "kernel \<Rightarrow> lowmem_params \<Rightarrow> vm_stat \<Rightarrow> c_short" where
  "choose_min_score K P vm =
     threshold_loop P (other_free vm + other_file vm) 0
       (nat (effective_array_size P)) (min_score_adj_init K)"

subsection \<open>Lines 109 to 119: the early return and the reclaimable total\<close>

text \<open>
  The test of line 109 compares the \<open>short\<close>, promoted to \<open>int\<close>, with
  \<open>OOM_ADJUST_MAX + 1\<close>.
\<close>

definition returns_at_109 :: "kernel \<Rightarrow> c_short \<Rightarrow> bool" where
  "returns_at_109 K min_score_adj \<longleftrightarrow> sint min_score_adj = OOM_ADJUST_MAX K + 1"

definition reclaimable :: "vm_stat \<Rightarrow> c_int" where
  "reclaimable vm =
     NR_ACTIVE_ANON vm + NR_ACTIVE_FILE vm + NR_INACTIVE_ANON vm + NR_INACTIVE_FILE vm"

subsection \<open>Lines 130 to 171: the scan of the process list\<close>

text \<open>
  The three variables the loop assigns. \<open>selected\<close> is a pointer in the C code; here
  it is the position of the selected entry in the process list, \<open>None\<close> for \<open>NULL\<close>.
\<close>

record scan_vars =
  selected :: "nat option"
  selected_tasksize :: c_int
  selected_oom_score_adj :: c_short

definition scan_init :: "c_short \<Rightarrow> scan_vars" where
  "scan_init min_score_adj =
     \<lparr>selected = None, selected_tasksize = 0, selected_oom_score_adj = min_score_adj\<rparr>"

text \<open>
  The body of \<open>for_each_process\<close> on the entries from position \<open>i\<close> on. \<open>None\<close> is
  the \<open>return 0\<close> of line 148, which leaves the function from inside the loop;
  \<open>Some\<close> holds the variables after the last entry. \<open>jiffies\<close> is read once per
  invocation.
\<close>

fun scan_tasks ::
  "kernel \<Rightarrow> c_ulong \<Rightarrow> c_ulong \<Rightarrow> c_short \<Rightarrow> task_struct list \<Rightarrow> nat \<Rightarrow> scan_vars
   \<Rightarrow> scan_vars option" where
  "scan_tasks K jiffies timeout min_score_adj [] i v = Some v"
| "scan_tasks K jiffies timeout min_score_adj (tsk # rest) i v =
     (if PF_KTHREAD tsk then scan_tasks K jiffies timeout min_score_adj rest (Suc i) v
      else if \<not> has_mm tsk then scan_tasks K jiffies timeout min_score_adj rest (Suc i) v
      else if TIF_MEMDIE tsk \<and> time_before_eq K jiffies timeout then None
      else if oom_score_adj tsk <s min_score_adj
        then scan_tasks K jiffies timeout min_score_adj rest (Suc i) v
      else if mm_rss tsk \<le>s 0
        then scan_tasks K jiffies timeout min_score_adj rest (Suc i) v
      else if selected v \<noteq> None \<and> oom_score_adj tsk <s selected_oom_score_adj v
        then scan_tasks K jiffies timeout min_score_adj rest (Suc i) v
      else if selected v \<noteq> None \<and> oom_score_adj tsk <s selected_oom_score_adj v
                \<and> mm_rss tsk \<le>s selected_tasksize v
        then scan_tasks K jiffies timeout min_score_adj rest (Suc i) v
      else scan_tasks K jiffies timeout min_score_adj rest (Suc i)
             \<lparr>selected = Some i, selected_tasksize = mm_rss tsk,
              selected_oom_score_adj = oom_score_adj tsk\<rparr>)"

subsection \<open>Lines 172 to 190: the kill\<close>

definition kill :: "c_ulong \<Rightarrow> kernel \<Rightarrow> nat \<Rightarrow> lmk_state \<Rightarrow> lmk_state" where
  "kill jiffies K i s =
     s\<lparr>lowmem_deathpending_timeout := jiffies + HZ K,
       sigkill_sent := sigkill_sent s @ [i],
       tasks := (tasks s)[i := (tasks s ! i)\<lparr>TIF_MEMDIE := True\<rparr>],
       compact_calls := Suc (compact_calls s)\<rparr>"

subsection \<open>The whole function\<close>

text \<open>
  \<open>lowmem_shrink\<close> with the values it reads as arguments: the constants, the module
  parameters, the page counters, \<open>jiffies\<close>, \<open>nr_to_scan\<close> (only compared with 0) and
  the state. It gives the returned \<open>int\<close> and the state it leaves.
\<close>

definition lowmem_shrink ::
  "kernel \<Rightarrow> lowmem_params \<Rightarrow> vm_stat \<Rightarrow> c_ulong \<Rightarrow> int \<Rightarrow> lmk_state \<Rightarrow> c_int \<times> lmk_state" where
  "lowmem_shrink K P vm jiffies nr_to_scan s =
     (let min_score_adj = choose_min_score K P vm in
      if returns_at_109 K min_score_adj then (0, s)
      else
        let rem = reclaimable vm in
        if nr_to_scan \<le> 0 then (rem, s)
        else
          (case scan_tasks K jiffies (lowmem_deathpending_timeout s) min_score_adj
                  (tasks s) 0 (scan_init min_score_adj) of
             None \<Rightarrow> (0, s)
           | Some v \<Rightarrow>
               (case selected v of
                  Some i \<Rightarrow> (rem - selected_tasksize v, kill jiffies K i s)
                | None \<Rightarrow> (- 1, s))))"

subsection \<open>Notions the statements use\<close>

text \<open>An entry that passes the four filters of lines 137 to 158.\<close>

definition eligible :: "c_short \<Rightarrow> task_struct \<Rightarrow> bool" where
  "eligible min_score_adj p \<longleftrightarrow>
     \<not> PF_KTHREAD p \<and> has_mm p \<and> \<not> oom_score_adj p <s min_score_adj \<and> \<not> mm_rss p \<le>s 0"

text \<open>An entry at which the test of line 144 reads a set \<open>TIF_MEMDIE\<close> flag.\<close>

definition pending_death :: "task_struct \<Rightarrow> bool" where
  "pending_death p \<longleftrightarrow> \<not> PF_KTHREAD p \<and> has_mm p \<and> TIF_MEMDIE p"

text \<open>Some entry of the effective table lies above the available pages.\<close>

definition threshold_matched :: "lowmem_params \<Rightarrow> vm_stat \<Rightarrow> bool" where
  "threshold_matched P vm \<longleftrightarrow>
     (\<exists>i < nat (effective_array_size P).
        other_free vm + other_file vm <s lowmem_minfree P ! i)"

subsection \<open>Concrete values\<close>

text \<open>
  The header values of the kernel tree: \<open>OOM_SCORE_ADJ_MAX\<close> is 1000 and
  \<open>OOM_ADJUST_MAX\<close> is 15 in linux/oom.h; \<open>time_before_eq(a, b)\<close> is
  \<open>(long)(b) - (long)(a) >= 0\<close> in linux/jiffies.h; \<open>HZ\<close> is taken as 100.
\<close>

definition linux_headers :: kernel where
  "linux_headers =
     \<lparr>OOM_SCORE_ADJ_MAX = 1000, OOM_ADJUST_MAX = 15, HZ = 100,
      time_before_eq = (\<lambda>a b. 0 \<le>s b - a)\<rparr>"

text \<open>The initial values of the module parameters, lines 45 to 58.\<close>

definition default_params :: lowmem_params where
  "default_params =
     \<lparr>lowmem_adj = [0, 1, 6, 12, 0, 0], lowmem_adj_size = 4,
      lowmem_minfree = [3 * 1024, 4 * 1024, 10 * 1024, 16 * 1024, 0, 0],
      lowmem_minfree_size = 4\<rparr>"

definition mk_vm :: "c_ulong \<Rightarrow> c_ulong \<Rightarrow> vm_stat" where
  "mk_vm free anon =
     \<lparr>NR_FREE_PAGES = free, NR_INACTIVE_ANON = 0, NR_ACTIVE_ANON = anon,
      NR_INACTIVE_FILE = 0, NR_ACTIVE_FILE = 0\<rparr>"

definition mk_task :: "int \<Rightarrow> bool \<Rightarrow> c_short \<Rightarrow> c_int \<Rightarrow> task_struct" where
  "mk_task n memdie adj rss =
     \<lparr>pid = n, PF_KTHREAD = False, has_mm = True, TIF_MEMDIE = memdie,
      oom_score_adj = adj, mm_rss = rss\<rparr>"

definition mk_state :: "task_struct list \<Rightarrow> c_ulong \<Rightarrow> lmk_state" where
  "mk_state ps timeout =
     \<lparr>tasks = ps, lowmem_deathpending_timeout = timeout, sigkill_sent = [],
      compact_calls = 0\<rparr>"

section \<open>The threshold check\<close>

lemma effective_array_size_min:
  "effective_array_size P = min 6 (min (lowmem_adj_size P) (lowmem_minfree_size P))"
  by (simp add: effective_array_size_def Let_def min_def)

text \<open>
  The sums and differences of \<open>int\<close>s are those of the integers as long as these stay
  within 32 bits, as page counts on this target do.
\<close>

lemma sint_add_no_wrap:
  fixes a b :: c_int
  shows "- (2 ^ 31) \<le> sint a + sint b \<Longrightarrow> sint a + sint b < 2 ^ 31 \<Longrightarrow>
         sint (a + b) = sint a + sint b"
  by (simp add: sint_word_ariths signed_take_bit_int_eq_self)

lemma sint_sub_no_wrap:
  fixes a b :: c_int
  shows "- (2 ^ 31) \<le> sint a - sint b \<Longrightarrow> sint a - sint b < 2 ^ 31 \<Longrightarrow>
         sint (a - b) = sint a - sint b"
  by (simp add: sint_word_ariths signed_take_bit_int_eq_self)

lemma available_pages_no_wrap:
  "- (2 ^ 31) \<le> sint (other_free vm) + sint (other_file vm) \<Longrightarrow>
   sint (other_free vm) + sint (other_file vm) < 2 ^ 31 \<Longrightarrow>
   other_free vm + other_file vm <s x
     \<longleftrightarrow> sint (other_free vm) + sint (other_file vm) < sint x"
  by (simp add: word_sless_alt sint_add_no_wrap)

lemma threshold_loop_no_match:
  "(\<And>j. i \<le> j \<Longrightarrow> j < n \<Longrightarrow> \<not> avail <s lowmem_minfree P ! j) \<Longrightarrow>
   threshold_loop P avail i n m = m"
proof (induction P avail i n m rule: threshold_loop.induct)
  case (1 P avail i n m)
  show ?case
  proof (cases "i < n")
    case True
    then have "\<not> avail <s lowmem_minfree P ! i"
      using "1.prems" [of i] by simp
    moreover have "threshold_loop P avail (Suc i) n m = m"
      using "1.IH" True \<open>\<not> avail <s lowmem_minfree P ! i\<close> "1.prems" by simp
    ultimately show ?thesis
      using True by (simp add: threshold_loop.simps [of P avail i])
  next
    case False
    then show ?thesis by (simp add: threshold_loop.simps [of P avail i])
  qed
qed

lemma threshold_loop_first_match:
  "i \<le> k \<Longrightarrow> k < n \<Longrightarrow> avail <s lowmem_minfree P ! k \<Longrightarrow>
   (\<And>j. i \<le> j \<Longrightarrow> j < k \<Longrightarrow> \<not> avail <s lowmem_minfree P ! j) \<Longrightarrow>
   threshold_loop P avail i n m = lowmem_adj P ! k"
proof (induction P avail i n m rule: threshold_loop.induct)
  case (1 P avail i n m)
  from "1.prems" have in_range: "i < n" by simp
  show ?case
  proof (cases "i = k")
    case True
    with "1.prems" in_range show ?thesis
      by (simp add: threshold_loop.simps [of P avail k])
  next
    case False
    with "1.prems" have lt: "i < k" by simp
    then have no: "\<not> avail <s lowmem_minfree P ! i"
      using "1.prems"(4) [of i] by simp
    have "threshold_loop P avail (Suc i) n m = lowmem_adj P ! k"
      using "1.IH" [OF in_range no] lt "1.prems" by simp
    with in_range no show ?thesis
      by (simp add: threshold_loop.simps [of P avail i])
  qed
qed

text \<open>
  C1. The effective table has min(lowmem_adj_size, lowmem_minfree_size, 6) entries. The
  threshold check goes through them from index 0 upward: if entry \<open>i\<close> is the first whose
  \<open>lowmem_minfree\<close> is greater than \<open>other_free + other_file\<close> (the sum and the comparison
  as the C \<open>int\<close>s compute them), \<open>min_score_adj\<close> becomes \<open>lowmem_adj[i]\<close>; if no entry
  is greater, no score is chosen: \<open>min_score_adj\<close> keeps the value it was initialised
  with, \<open>OOM_SCORE_ADJ_MAX + 1\<close>.
\<close>

theorem threshold_check_first_match:
  assumes "wf_params P"
  shows "effective_array_size P = min 6 (min (lowmem_adj_size P) (lowmem_minfree_size P))
       \<and> (\<forall>i < nat (effective_array_size P).
            other_free vm + other_file vm <s lowmem_minfree P ! i
            \<and> (\<forall>j < i. \<not> other_free vm + other_file vm <s lowmem_minfree P ! j)
            \<longrightarrow> choose_min_score K P vm = lowmem_adj P ! i)
       \<and> ((\<forall>i < nat (effective_array_size P).
             \<not> other_free vm + other_file vm <s lowmem_minfree P ! i)
            \<longrightarrow> choose_min_score K P vm = min_score_adj_init K)"
proof (intro conjI allI impI)
  show "effective_array_size P = min 6 (min (lowmem_adj_size P) (lowmem_minfree_size P))"
    by (rule effective_array_size_min)
next
  fix i
  assume "i < nat (effective_array_size P)"
    and "other_free vm + other_file vm <s lowmem_minfree P ! i
         \<and> (\<forall>j < i. \<not> other_free vm + other_file vm <s lowmem_minfree P ! j)"
  then show "choose_min_score K P vm = lowmem_adj P ! i"
    unfolding choose_min_score_def
    by (intro threshold_loop_first_match) simp_all
next
  assume "\<forall>i < nat (effective_array_size P).
            \<not> other_free vm + other_file vm <s lowmem_minfree P ! i"
  then show "choose_min_score K P vm = min_score_adj_init K"
    unfolding choose_min_score_def
    by (intro threshold_loop_no_match) simp
qed

theorem threshold_check_first_match_witness:
  "wf_params default_params
   \<and> choose_min_score linux_headers default_params (mk_vm 5000 0) = 6
   \<and> choose_min_score linux_headers default_params (mk_vm 20000 0) = 1001"
proof -
  have wf: "wf_params default_params"
    by (simp add: wf_params_def default_params_def)
  have n: "nat (effective_array_size default_params) = 4"
    by (simp add: effective_array_size_def default_params_def)
  have lt4: "\<And>i::nat. i < 4 \<longleftrightarrow> i = 0 \<or> i = 1 \<or> i = 2 \<or> i = 3" by auto
  have lt2: "\<And>j::nat. j < 2 \<longleftrightarrow> j = 0 \<or> j = 1" by auto
  have a: "choose_min_score linux_headers default_params (mk_vm 5000 0)
           = lowmem_adj default_params ! 2"
  proof (rule threshold_check_first_match
      [OF wf, THEN conjunct2, THEN conjunct1, rule_format])
    show "2 < nat (effective_array_size default_params)" by (simp add: n)
    show "other_free (mk_vm 5000 0) + other_file (mk_vm 5000 0)
            <s lowmem_minfree default_params ! 2
          \<and> (\<forall>j<2. \<not> other_free (mk_vm 5000 0) + other_file (mk_vm 5000 0)
                       <s lowmem_minfree default_params ! j)"
      by (simp add: lt2 default_params_def mk_vm_def other_free_def other_file_def)
  qed
  have b: "choose_min_score linux_headers default_params (mk_vm 20000 0)
           = min_score_adj_init linux_headers"
  proof (rule threshold_check_first_match
      [OF wf, THEN conjunct2, THEN conjunct2, THEN mp])
    show "\<forall>i<nat (effective_array_size default_params).
            \<not> other_free (mk_vm 20000 0) + other_file (mk_vm 20000 0)
               <s lowmem_minfree default_params ! i"
      by (simp only: n)
        (simp add: lt4 default_params_def mk_vm_def other_free_def other_file_def)
  qed
  from wf a b show ?thesis
    by (simp add: default_params_def min_score_adj_init_def linux_headers_def)
qed

section \<open>The scan of the process list\<close>

text \<open>One step of the loop, by what happens to the entry.\<close>

lemma scan_tasks_Cons:
  "scan_tasks K j t m (tsk # rest) i v =
     (if pending_death tsk \<and> time_before_eq K j t then None
      else if eligible m tsk
              \<and> (selected v = None \<or> \<not> oom_score_adj tsk <s selected_oom_score_adj v)
        then scan_tasks K j t m rest (Suc i)
               \<lparr>selected = Some i, selected_tasksize = mm_rss tsk,
                selected_oom_score_adj = oom_score_adj tsk\<rparr>
      else scan_tasks K j t m rest (Suc i) v)"
  by (auto simp: eligible_def pending_death_def)

declare scan_tasks.simps(2) [simp del]

lemma scan_tasks_abort:
  "\<exists>p \<in> set ps. pending_death p \<Longrightarrow> time_before_eq K j t \<Longrightarrow>
   scan_tasks K j t m ps i v = None"
proof (induction ps arbitrary: i v)
  case Nil
  then show ?case by simp
next
  case (Cons tsk rest)
  show ?case
  proof (cases "pending_death tsk")
    case True
    with Cons.prems show ?thesis by (simp add: scan_tasks_Cons)
  next
    case False
    with Cons.prems have "\<exists>p \<in> set rest. pending_death p" by auto
    then have "\<And>i v. scan_tasks K j t m rest i v = None"
      using Cons.IH Cons.prems(2) by blast
    then show ?thesis by (simp add: scan_tasks_Cons)
  qed
qed

lemma scan_tasks_completes:
  "\<not> time_before_eq K j t \<or> (\<forall>p \<in> set ps. \<not> pending_death p) \<Longrightarrow>
   \<exists>v'. scan_tasks K j t m ps i v = Some v'"
  by (induction ps arbitrary: i v) (auto simp: scan_tasks_Cons)

text \<open>The variables after the scan: untouched, or those of an eligible entry.\<close>

lemma scan_tasks_selected:
  "scan_tasks K j t m ps i v = Some v' \<Longrightarrow>
   v' = v \<or>
   (\<exists>k. selected v' = Some k \<and> i \<le> k \<and> k < i + length ps \<and> eligible m (ps ! (k - i))
        \<and> selected_tasksize v' = mm_rss (ps ! (k - i))
        \<and> selected_oom_score_adj v' = oom_score_adj (ps ! (k - i)))"
proof (induction ps arbitrary: i v)
  case Nil
  then show ?case by simp
next
  case (Cons tsk rest)
  let ?new = "\<lparr>selected = Some i, selected_tasksize = mm_rss tsk,
               selected_oom_score_adj = oom_score_adj tsk\<rparr>"
  from Cons.prems consider
    (skip) "scan_tasks K j t m rest (Suc i) v = Some v'"
    | (take) "eligible m tsk" "scan_tasks K j t m rest (Suc i) ?new = Some v'"
    by (auto simp: scan_tasks_Cons split: if_splits)
  then show ?case
  proof cases
    case skip
    from Cons.IH [OF skip] show ?thesis
    proof
      assume "v' = v" then show ?thesis by simp
    next
      assume "\<exists>k. selected v' = Some k \<and> Suc i \<le> k \<and> k < Suc i + length rest
        \<and> eligible m (rest ! (k - Suc i))
        \<and> selected_tasksize v' = mm_rss (rest ! (k - Suc i))
        \<and> selected_oom_score_adj v' = oom_score_adj (rest ! (k - Suc i))"
      then obtain k where k: "selected v' = Some k" "Suc i \<le> k" "k < Suc i + length rest"
        "eligible m (rest ! (k - Suc i))"
        "selected_tasksize v' = mm_rss (rest ! (k - Suc i))"
        "selected_oom_score_adj v' = oom_score_adj (rest ! (k - Suc i))" by blast
      from k(2) have "(tsk # rest) ! (k - i) = rest ! (k - Suc i)"
        by (simp add: nth_Cons') 
      with k show ?thesis by auto
    qed
  next
    case take
    from Cons.IH [OF take(2)] show ?thesis
    proof
      assume "v' = ?new"
      with take(1) show ?thesis by simp
    next
      assume "\<exists>k. selected v' = Some k \<and> Suc i \<le> k \<and> k < Suc i + length rest
        \<and> eligible m (rest ! (k - Suc i))
        \<and> selected_tasksize v' = mm_rss (rest ! (k - Suc i))
        \<and> selected_oom_score_adj v' = oom_score_adj (rest ! (k - Suc i))"
      then obtain k where k: "selected v' = Some k" "Suc i \<le> k" "k < Suc i + length rest"
        "eligible m (rest ! (k - Suc i))"
        "selected_tasksize v' = mm_rss (rest ! (k - Suc i))"
        "selected_oom_score_adj v' = oom_score_adj (rest ! (k - Suc i))" by blast
      from k(2) have "(tsk # rest) ! (k - i) = rest ! (k - Suc i)"
        by (simp add: nth_Cons')
      with k show ?thesis by auto
    qed
  qed
qed

text \<open>Once something is selected, something stays selected and its score never falls.\<close>

lemma scan_tasks_mono:
  "scan_tasks K j t m ps i v = Some v' \<Longrightarrow> selected v \<noteq> None \<Longrightarrow>
   selected v' \<noteq> None \<and> selected_oom_score_adj v \<le>s selected_oom_score_adj v'"
proof (induction ps arbitrary: i v)
  case Nil
  then show ?case by simp
next
  case (Cons tsk rest)
  let ?new = "\<lparr>selected = Some i, selected_tasksize = mm_rss tsk,
               selected_oom_score_adj = oom_score_adj tsk\<rparr>"
  from Cons.prems consider
    (skip) "scan_tasks K j t m rest (Suc i) v = Some v'"
    | (take) "\<not> oom_score_adj tsk <s selected_oom_score_adj v"
        "scan_tasks K j t m rest (Suc i) ?new = Some v'"
    by (auto simp: scan_tasks_Cons split: if_splits)
  then show ?case
  proof cases
    case skip
    then show ?thesis using Cons.IH Cons.prems(2) by blast
  next
    case take
    from Cons.IH [OF take(2)]
    have "selected v' \<noteq> None \<and> oom_score_adj tsk \<le>s selected_oom_score_adj v'" by simp
    with take(1) show ?thesis by (auto simp: word_sless_alt word_sle_eq)
  qed
qed

text \<open>
  Every eligible entry scanned is dominated by the final selection: its score is at most
  the selected score, and strictly below it when the entry comes after the selected one.
\<close>

lemma scan_tasks_max:
  "scan_tasks K j t m ps i v = Some v' \<Longrightarrow> n < length ps \<Longrightarrow> eligible m (ps ! n) \<Longrightarrow>
   \<exists>k. selected v' = Some k
      \<and> oom_score_adj (ps ! n) \<le>s selected_oom_score_adj v'
      \<and> (k < i + n \<longrightarrow> oom_score_adj (ps ! n) <s selected_oom_score_adj v')"
proof (induction ps arbitrary: i v n)
  case Nil
  then show ?case by simp
next
  case (Cons tsk rest)
  let ?new = "\<lparr>selected = Some i, selected_tasksize = mm_rss tsk,
               selected_oom_score_adj = oom_score_adj tsk\<rparr>"
  show ?case
  proof (cases n)
    case (Suc n')
    from Cons.prems(1) obtain w where w: "scan_tasks K j t m rest (Suc i) w = Some v'"
      by (auto simp: scan_tasks_Cons split: if_splits)
    from Cons.prems Suc have "n' < length rest" "eligible m (rest ! n')" by simp_all
    from Cons.IH [OF w this] Suc show ?thesis by simp
  next
    case 0
    with Cons.prems have el: "eligible m tsk" by simp
    from Cons.prems(1) el consider
      (skip) "selected v \<noteq> None" "oom_score_adj tsk <s selected_oom_score_adj v"
        "scan_tasks K j t m rest (Suc i) v = Some v'"
      | (take) "scan_tasks K j t m rest (Suc i) ?new = Some v'"
      by (auto simp: scan_tasks_Cons split: if_splits)
    then show ?thesis
    proof cases
      case skip
      from scan_tasks_mono [OF skip(3) skip(1)] skip(2) 0 show ?thesis
        by (auto simp: word_sless_alt word_sle_eq)
    next
      case take
      from scan_tasks_mono [OF take]
      have m: "selected v' \<noteq> None" "oom_score_adj tsk \<le>s selected_oom_score_adj v'"
        by simp_all
      from scan_tasks_selected [OF take]
      have "\<forall>k. selected v' = Some k \<longrightarrow> i \<le> k" by auto
      with m 0 show ?thesis by auto
    qed
  qed
qed

lemma scan_tasks_nobody:
  "\<forall>p \<in> set ps. \<not> eligible m p \<Longrightarrow> \<forall>p \<in> set ps. \<not> (pending_death p \<and> time_before_eq K j t) \<Longrightarrow>
   scan_tasks K j t m ps i v = Some v"
  by (induction ps arbitrary: i) (auto simp: scan_tasks_Cons)

text \<open>
  The entry selected at the end: the last of the entries with the greatest score among
  those that pass the filters.
\<close>

lemma scan_tasks_last_best:
  assumes "scan_tasks K jiffies timeout m ps 0 (scan_init m) = Some v"
    and "k < length ps" and "eligible m (ps ! k)"
    and "\<forall>n < length ps. eligible m (ps ! n)
           \<longrightarrow> oom_score_adj (ps ! n) \<le>s oom_score_adj (ps ! k)"
    and "\<forall>n < length ps. k < n \<and> eligible m (ps ! n)
           \<longrightarrow> oom_score_adj (ps ! n) \<noteq> oom_score_adj (ps ! k)"
  shows "selected v = Some k \<and> selected_tasksize v = mm_rss (ps ! k)"
proof -
  from scan_tasks_max [OF assms(1) assms(2) assms(3)]
  obtain k' where k': "selected v = Some k'"
    "oom_score_adj (ps ! k) \<le>s selected_oom_score_adj v"
    "k' < k \<longrightarrow> oom_score_adj (ps ! k) <s selected_oom_score_adj v" by auto
  from k'(1) have "v \<noteq> scan_init m" by (auto simp: scan_init_def)
  with scan_tasks_selected [OF assms(1)] k'(1)
  have sel: "k' < length ps" "eligible m (ps ! k')"
    "selected_tasksize v = mm_rss (ps ! k')"
    "selected_oom_score_adj v = oom_score_adj (ps ! k')" by auto
  from assms(4) sel(1,2) have "oom_score_adj (ps ! k') \<le>s oom_score_adj (ps ! k)" by blast
  with k'(2) sel(4) have eq: "oom_score_adj (ps ! k') = oom_score_adj (ps ! k)"
    by (auto simp: word_sle_eq intro: signed_word_eqI)
  with k'(3) sel(4) have "\<not> k' < k" by (simp add: word_sless_alt)
  moreover from assms(5) sel(1,2) eq have "\<not> k < k'" by blast
  ultimately have "k' = k" by simp
  with k'(1) sel(3) show ?thesis by simp
qed

lemma scan_tasks_found_size:
  "scan_tasks K j t m ps 0 (scan_init m) = Some v \<Longrightarrow> selected v = Some k \<Longrightarrow>
   k < length ps \<and> eligible m (ps ! k) \<and> selected_tasksize v = mm_rss (ps ! k)"
  using scan_tasks_selected [of K j t m ps 0 "scan_init m" v]
  by (auto simp: scan_init_def)

text \<open>After the deadline the flag is not looked at.\<close>

lemma scan_tasks_ignores_flag:
  "\<not> time_before_eq K j t \<Longrightarrow>
   scan_tasks K j t m (map (\<lambda>p. p\<lparr>TIF_MEMDIE := False\<rparr>) ps) i v = scan_tasks K j t m ps i v"
  by (induction ps arbitrary: i v) (auto simp: scan_tasks_Cons eligible_def pending_death_def)

text \<open>The definitions a concrete run unfolds.\<close>

lemmas run_defs =
  lowmem_shrink_def choose_min_score_def threshold_loop.simps effective_array_size_def
  default_params_def mk_vm_def other_free_def other_file_def min_score_adj_init_def
  linux_headers_def returns_at_109_def reclaimable_def mk_state_def mk_task_def
  scan_init_def kill_def scan_tasks.simps(2) eligible_def pending_death_def
  word_sless_alt word_sle_eq

section \<open>Which entry the scan selects\<close>

text \<open>
  C8. Whatever the process list, an entry the scan ends up with as \<open>selected\<close> lies in
  the list, is not a kernel thread (\<open>PF_KTHREAD\<close> clear), has a score that is not below
  \<open>min_score_adj\<close> and a resident size that is not \<open><= 0\<close>; the size recorded for it
  is its own. Entries failing one of these tests are passed over whatever their other
  fields hold.
\<close>

theorem victim_passes_filters:
  assumes "scan_tasks K jiffies timeout m ps 0 (scan_init m) = Some v"
    and "selected v = Some k"
  shows "k < length ps \<and> \<not> PF_KTHREAD (ps ! k) \<and> has_mm (ps ! k)
       \<and> \<not> oom_score_adj (ps ! k) <s m \<and> \<not> mm_rss (ps ! k) \<le>s 0
       \<and> selected_tasksize v = mm_rss (ps ! k)"
proof -
  from assms(2) have "v \<noteq> scan_init m" by (auto simp: scan_init_def)
  with scan_tasks_selected [OF assms(1)] assms(2)
  have "k < length ps \<and> eligible m (ps ! k) \<and> selected_tasksize v = mm_rss (ps ! k)"
    by auto
  then show ?thesis by (simp add: eligible_def)
qed

theorem victim_passes_filters_witness:
  "scan_tasks linux_headers 5 0 6
     [(mk_task 1 False 900 4000)\<lparr>PF_KTHREAD := True\<rparr>, mk_task 2 False 5 4000,
      mk_task 3 False 900 0, mk_task 4 False 7 250] 0 (scan_init 6)
   = Some \<lparr>selected = Some 3, selected_tasksize = 250, selected_oom_score_adj = 7\<rparr>
   \<and> \<not> PF_KTHREAD (mk_task 4 False 7 250)
   \<and> \<not> oom_score_adj (mk_task 4 False 7 250) <s 6
   \<and> \<not> mm_rss (mk_task 4 False 7 250) \<le>s 0"
proof -
  let ?ps = "[(mk_task 1 False 900 4000)\<lparr>PF_KTHREAD := True\<rparr>, mk_task 2 False 5 4000,
      mk_task 3 False 900 0, mk_task 4 False 7 250]"
  let ?v = "\<lparr>selected = Some 3, selected_tasksize = 250, selected_oom_score_adj = 7\<rparr>"
  have run: "scan_tasks linux_headers 5 0 6 ?ps 0 (scan_init 6) = Some ?v"
    by (simp add: run_defs)
  have sel: "selected ?v = Some 3" by simp
  from victim_passes_filters [OF run sel] run show ?thesis
    by (simp add: mk_task_def word_sless_alt word_sle_eq)
qed

text \<open>
  C3, as the code has it. When the scan runs to the end, the entry selected is the last
  one in iteration order among the entries that pass the filters with the greatest
  score: an entry \<open>k\<close> that passes the filters, whose score no other such entry exceeds
  and that no later such entry equals in score, is the one selected. Resident sizes occur
  in the conditions only through the filter \<open>tasksize > 0\<close>, so they never decide
  between two entries of equal score.
\<close>

theorem ties_go_to_the_last_candidate:
  assumes "scan_tasks K jiffies timeout m ps 0 (scan_init m) = Some v"
    and "k < length ps" and "eligible m (ps ! k)"
    and "\<forall>n < length ps. eligible m (ps ! n)
           \<longrightarrow> oom_score_adj (ps ! n) \<le>s oom_score_adj (ps ! k)"
    and "\<forall>n < length ps. k < n \<and> eligible m (ps ! n)
           \<longrightarrow> oom_score_adj (ps ! n) \<noteq> oom_score_adj (ps ! k)"
  shows "selected v = Some k \<and> selected_tasksize v = mm_rss (ps ! k)"
  using assms by (rule scan_tasks_last_best)

theorem ties_go_to_the_last_candidate_witness:
  "scan_tasks linux_headers 5 0 5
     [mk_task 1 False 5 700, mk_task 2 False 8 500, mk_task 3 False 8 100,
      mk_task 4 False 6 900] 0 (scan_init 5)
   = Some \<lparr>selected = Some 2, selected_tasksize = 100, selected_oom_score_adj = 8\<rparr>
   \<and> eligible 5 (mk_task 2 False 8 500) \<and> eligible 5 (mk_task 3 False 8 100)"
proof -
  let ?ps = "[mk_task 1 False 5 700, mk_task 2 False 8 500, mk_task 3 False 8 100,
      mk_task 4 False 6 900]"
  let ?v = "\<lparr>selected = Some 2, selected_tasksize = 100, selected_oom_score_adj = 8\<rparr>"
  have run: "scan_tasks linux_headers 5 0 5 ?ps 0 (scan_init 5) = Some ?v"
    by (simp add: run_defs)
  have "selected ?v = Some 2 \<and> selected_tasksize ?v = mm_rss (?ps ! 2)"
    by (rule ties_go_to_the_last_candidate [OF run]) (simp_all add: less_Suc_eq run_defs)
  with run show ?thesis by (simp add: run_defs)
qed

text \<open>
  C3 as the claim words it, with the earliest of the tied entries returned, fails: of two
  entries that both score 8, with sizes 100 and 500 in either order, the scan selects
  the second.
\<close>

theorem earliest_tied_candidate_not_selected:
  "scan_tasks linux_headers 5 0 8 [mk_task 1 False 8 100, mk_task 2 False 8 500] 0
     (scan_init 8)
   = Some \<lparr>selected = Some 1, selected_tasksize = 500, selected_oom_score_adj = 8\<rparr>
   \<and> scan_tasks linux_headers 5 0 8 [mk_task 1 False 8 500, mk_task 2 False 8 100] 0
     (scan_init 8)
   = Some \<lparr>selected = Some 1, selected_tasksize = 100, selected_oom_score_adj = 8\<rparr>"
  by (simp add: run_defs)

section \<open>The abort while a kill is in flight\<close>

lemma lowmem_shrink_abort:
  "0 < nr_to_scan \<Longrightarrow>
   scan_tasks K jiffies (lowmem_deathpending_timeout s) (choose_min_score K P vm)
     (tasks s) 0 (scan_init (choose_min_score K P vm)) = None \<Longrightarrow>
   lowmem_shrink K P vm jiffies nr_to_scan s = (0, s)"
  by (simp add: lowmem_shrink_def Let_def)

text \<open>
  C4. In an invocation with \<open>nr_to_scan > 0\<close>, let the process list hold an entry that
  is not a kernel thread and whose \<open>TIF_MEMDIE\<close> flag the scan reads as set, while
  \<open>time_before_eq(jiffies, lowmem_deathpending_timeout)\<close> holds. Then the scan leaves the
  function through the \<open>return 0\<close> of line 148, whatever entries follow and whatever
  \<open>min_score_adj\<close> is, and \<open>lowmem_shrink\<close> returns 0 with the state as it was: no
  SIGKILL sent, no flag set, the deadline unchanged.
\<close>

theorem pending_death_in_cooldown_aborts:
  assumes "0 < nr_to_scan"
    and "tasks s = before @ p # after"
    and "\<not> PF_KTHREAD p" and "has_mm p" and "TIF_MEMDIE p"
    and "time_before_eq K jiffies (lowmem_deathpending_timeout s)"
  shows "scan_tasks K jiffies (lowmem_deathpending_timeout s) m (tasks s) 0 (scan_init m)
           = None
       \<and> lowmem_shrink K P vm jiffies nr_to_scan s = (0, s)"
proof -
  from assms(2-5) have "\<exists>q \<in> set (tasks s). pending_death q"
    by (auto simp: pending_death_def)
  then have "\<And>m. scan_tasks K jiffies (lowmem_deathpending_timeout s) m (tasks s) 0
                 (scan_init m) = None"
    using assms(6) by (rule scan_tasks_abort)
  then show ?thesis using assms(1) by (simp add: lowmem_shrink_abort)
qed

theorem pending_death_in_cooldown_aborts_witness:
  "lowmem_shrink linux_headers default_params (mk_vm 2000 5000) 1001 1
     (mk_state [mk_task 1 False 3 400, mk_task 2 True 9 300, mk_task 3 False 12 800] 1100)
   = (0, mk_state [mk_task 1 False 3 400, mk_task 2 True 9 300, mk_task 3 False 12 800]
           1100)
   \<and> time_before_eq linux_headers 1001 1100"
proof -
  let ?s = "mk_state [mk_task 1 False 3 400, mk_task 2 True 9 300, mk_task 3 False 12 800]
              1100"
  have t: "time_before_eq linux_headers 1001 (lowmem_deathpending_timeout ?s)"
    by (simp add: run_defs)
  have l: "tasks ?s = [mk_task 1 False 3 400] @ mk_task 2 True 9 300 # [mk_task 3 False 12 800]"
    by (simp add: mk_state_def)
  have "lowmem_shrink linux_headers default_params (mk_vm 2000 5000) 1001 1 ?s = (0, ?s)"
    using pending_death_in_cooldown_aborts
      [of 1 ?s "[mk_task 1 False 3 400]" "mk_task 2 True 9 300" "[mk_task 3 False 12 800]"
        linux_headers 1001 _ default_params "mk_vm 2000 5000", OF _ l _ _ _ t]
    by (simp add: mk_task_def)
  with t show ?thesis by (simp add: mk_state_def)
qed

text \<open>
  C9. The \<open>TIF_MEMDIE\<close> test of line 144 comes before the score test of line 151 and
  the size test of line 157: in an invocation with \<open>nr_to_scan > 0\<close> and the deadline
  not yet passed, a flagged entry that is not a kernel thread makes \<open>lowmem_shrink\<close>
  return 0 with the state unchanged even when its score is below \<open>min_score_adj\<close> or
  its resident size is \<open><= 0\<close>, that is, when it does not pass the filters itself.
\<close>

theorem abort_check_precedes_filters:
  assumes "0 < nr_to_scan"
    and "tasks s = before @ p # after"
    and "\<not> PF_KTHREAD p" and "has_mm p" and "TIF_MEMDIE p"
    and "time_before_eq K jiffies (lowmem_deathpending_timeout s)"
    and "oom_score_adj p <s choose_min_score K P vm \<or> mm_rss p \<le>s 0"
  shows "\<not> eligible (choose_min_score K P vm) p
       \<and> lowmem_shrink K P vm jiffies nr_to_scan s = (0, s)"
proof -
  from assms(7) have "\<not> eligible (choose_min_score K P vm) p"
    by (auto simp: eligible_def)
  moreover from assms(2-5) have "\<exists>q \<in> set (tasks s). pending_death q"
    by (auto simp: pending_death_def)
  then have "scan_tasks K jiffies (lowmem_deathpending_timeout s) (choose_min_score K P vm)
               (tasks s) 0 (scan_init (choose_min_score K P vm)) = None"
    using assms(6) by (rule scan_tasks_abort)
  then have "lowmem_shrink K P vm jiffies nr_to_scan s = (0, s)"
    using assms(1) by (rule lowmem_shrink_abort [rotated])
  ultimately show ?thesis by simp
qed

theorem abort_check_precedes_filters_witness:
  "lowmem_shrink linux_headers default_params (mk_vm 5000 5000) 1001 1
     (mk_state [mk_task 1 False 8 400, mk_task 2 True 2 0] 1100)
   = (0, mk_state [mk_task 1 False 8 400, mk_task 2 True 2 0] 1100)
   \<and> choose_min_score linux_headers default_params (mk_vm 5000 5000) = 6"
proof -
  let ?s = "mk_state [mk_task 1 False 8 400, mk_task 2 True 2 0] 1100"
  have t: "time_before_eq linux_headers 1001 (lowmem_deathpending_timeout ?s)"
    by (simp add: run_defs)
  have l: "tasks ?s = [mk_task 1 False 8 400] @ mk_task 2 True 2 0 # []"
    by (simp add: mk_state_def)
  have m: "choose_min_score linux_headers default_params (mk_vm 5000 5000) = 6"
    by (simp add: run_defs)
  have f: "oom_score_adj (mk_task 2 True 2 0)
             <s choose_min_score linux_headers default_params (mk_vm 5000 5000)
           \<or> mm_rss (mk_task 2 True 2 0) \<le>s 0"
    by (simp add: m) (simp add: mk_task_def word_sle_eq)
  have "lowmem_shrink linux_headers default_params (mk_vm 5000 5000) 1001 1 ?s = (0, ?s)"
    using abort_check_precedes_filters
      [of 1 ?s "[mk_task 1 False 8 400]" "mk_task 2 True 2 0" "[]"
        linux_headers 1001 default_params "mk_vm 5000 5000", OF _ l _ _ _ t f]
    by (simp add: mk_task_def)
  with m show ?thesis by simp
qed

section \<open>The outcomes of a scan that runs to the end\<close>

lemma lowmem_shrink_scan:
  "0 < nr_to_scan \<Longrightarrow> \<not> returns_at_109 K (choose_min_score K P vm) \<Longrightarrow>
   lowmem_shrink K P vm jiffies nr_to_scan s =
     (case scan_tasks K jiffies (lowmem_deathpending_timeout s) (choose_min_score K P vm)
             (tasks s) 0 (scan_init (choose_min_score K P vm)) of
        None \<Rightarrow> (0, s)
      | Some v \<Rightarrow>
          (case selected v of
             Some i \<Rightarrow> (reclaimable vm - selected_tasksize v, kill jiffies K i s)
           | None \<Rightarrow> (- 1, s)))"
  by (simp add: lowmem_shrink_def Let_def)

text \<open>
  C5. In an invocation with \<open>nr_to_scan > 0\<close> that reaches the scan (line 109 does not
  return) and in which the scan ends with entry \<open>k\<close> selected: the returned value is the
  reclaimable total minus the resident size of entry \<open>k\<close> (in \<open>int\<close> arithmetic),
  \<open>lowmem_deathpending_timeout\<close> becomes \<open>jiffies + HZ\<close>, one SIGKILL is sent, to entry
  \<open>k\<close>, the \<open>TIF_MEMDIE\<close> flag of entry \<open>k\<close> is set and nothing else in the process
  list changes, and \<open>compact_nodes\<close> is called once.
\<close>

theorem kill_sets_deadline_and_returns_remainder:
  assumes "0 < nr_to_scan"
    and "\<not> returns_at_109 K (choose_min_score K P vm)"
    and "scan_tasks K jiffies (lowmem_deathpending_timeout s) (choose_min_score K P vm)
           (tasks s) 0 (scan_init (choose_min_score K P vm)) = Some v"
    and "selected v = Some k"
    and "lowmem_shrink K P vm jiffies nr_to_scan s = (ret, s')"
  shows "ret = reclaimable vm - mm_rss (tasks s ! k)
       \<and> lowmem_deathpending_timeout s' = jiffies + HZ K
       \<and> sigkill_sent s' = sigkill_sent s @ [k]
       \<and> tasks s' = (tasks s)[k := (tasks s ! k)\<lparr>TIF_MEMDIE := True\<rparr>]
       \<and> TIF_MEMDIE (tasks s' ! k)
       \<and> compact_calls s' = Suc (compact_calls s)"
proof -
  from scan_tasks_found_size [OF assms(3) assms(4)]
  have k: "k < length (tasks s)" "selected_tasksize v = mm_rss (tasks s ! k)" by simp_all
  from assms(5) have "(ret, s') = (reclaimable vm - mm_rss (tasks s ! k), kill jiffies K k s)"
    by (simp add: lowmem_shrink_scan [OF assms(1) assms(2)] assms(3) assms(4) k(2))
  with k(1) show ?thesis by (simp add: kill_def)
qed

theorem kill_sets_deadline_and_returns_remainder_witness:
  "lowmem_shrink linux_headers default_params (mk_vm 2000 5000) 1000 1
     (mk_state [mk_task 1 False 3 400, mk_task 2 False 9 300] 0)
   = (4700, \<lparr>tasks = [mk_task 1 False 3 400, mk_task 2 True 9 300],
             lowmem_deathpending_timeout = 1100, sigkill_sent = [1], compact_calls = 1\<rparr>)"
proof -
  let ?s = "mk_state [mk_task 1 False 3 400, mk_task 2 False 9 300] 0"
  let ?v = "\<lparr>selected = Some 1, selected_tasksize = 300, selected_oom_score_adj = 9\<rparr>"
  obtain ret s' where r:
    "lowmem_shrink linux_headers default_params (mk_vm 2000 5000) 1000 1 ?s = (ret, s')"
    by (cases "lowmem_shrink linux_headers default_params (mk_vm 2000 5000) 1000 1 ?s")
  have m: "choose_min_score linux_headers default_params (mk_vm 2000 5000) = 0"
    by (simp add: run_defs)
  have a: "\<not> returns_at_109 linux_headers
             (choose_min_score linux_headers default_params (mk_vm 2000 5000))"
    by (simp add: m) (simp add: returns_at_109_def linux_headers_def)
  have b: "scan_tasks linux_headers 1000 (lowmem_deathpending_timeout ?s)
             (choose_min_score linux_headers default_params (mk_vm 2000 5000))
             (tasks ?s) 0
             (scan_init (choose_min_score linux_headers default_params (mk_vm 2000 5000)))
           = Some ?v"
    by (simp add: m) (simp add: run_defs)
  have c: "selected ?v = Some 1" by simp
  from kill_sets_deadline_and_returns_remainder [OF _ a b c r]
  have "ret = 4700 \<and> lowmem_deathpending_timeout s' = 1100 \<and> sigkill_sent s' = [1]
        \<and> tasks s' = [mk_task 1 False 3 400, mk_task 2 True 9 300]
        \<and> compact_calls s' = 1"
    by (simp add: reclaimable_def mk_vm_def mk_state_def mk_task_def linux_headers_def)
  with r show ?thesis by (cases s') simp
qed

text \<open>
  When the scan is reached, is not left through line 148 and meets no entry passing the
  filters, the result is -1 and the state is as it was.
\<close>

lemma lowmem_shrink_no_candidate:
  assumes "0 < nr_to_scan"
    and "\<not> returns_at_109 K (choose_min_score K P vm)"
    and "scan_tasks K jiffies (lowmem_deathpending_timeout s) (choose_min_score K P vm)
           (tasks s) 0 (scan_init (choose_min_score K P vm)) \<noteq> None"
    and "\<forall>p \<in> set (tasks s). \<not> eligible (choose_min_score K P vm) p"
  shows "lowmem_shrink K P vm jiffies nr_to_scan s = (- 1, s)
       \<and> sint (- 1 :: c_int) = - 1 \<and> (- 1 :: c_int) \<noteq> 0"
proof -
  from assms(3) obtain v where v:
    "scan_tasks K jiffies (lowmem_deathpending_timeout s) (choose_min_score K P vm)
       (tasks s) 0 (scan_init (choose_min_score K P vm)) = Some v" by auto
  have "selected v = None"
  proof (cases "selected v")
    case (Some k)
    from scan_tasks_found_size [OF v Some] assms(4) show ?thesis by auto
  qed simp
  with v show ?thesis
    by (simp add: lowmem_shrink_scan [OF assms(1) assms(2)])
qed

section \<open>After the deadline\<close>

text \<open>
  C10. Once \<open>time_before_eq(jiffies, lowmem_deathpending_timeout)\<close> no longer holds, the
  scan gives the same result as on the process list with every \<open>TIF_MEMDIE\<close> flag
  cleared. So in an invocation with \<open>nr_to_scan > 0\<close> that reaches the scan, an entry
  \<open>k\<close> that still carries the flag, passes the filters (no kernel thread, score not
  below \<open>min_score_adj\<close>, resident size above 0) and is the last entry of greatest score
  among those passing them is selected again: a further SIGKILL goes to entry \<open>k\<close> and
  the deadline is set anew.
\<close>

theorem pending_death_after_deadline_killed_again:
  assumes "0 < nr_to_scan"
    and "\<not> returns_at_109 K (choose_min_score K P vm)"
    and "\<not> time_before_eq K jiffies (lowmem_deathpending_timeout s)"
    and "k < length (tasks s)" and "TIF_MEMDIE (tasks s ! k)"
    and "eligible (choose_min_score K P vm) (tasks s ! k)"
    and "\<forall>n < length (tasks s). eligible (choose_min_score K P vm) (tasks s ! n)
           \<longrightarrow> oom_score_adj (tasks s ! n) \<le>s oom_score_adj (tasks s ! k)"
    and "\<forall>n < length (tasks s). k < n \<and> eligible (choose_min_score K P vm) (tasks s ! n)
           \<longrightarrow> oom_score_adj (tasks s ! n) \<noteq> oom_score_adj (tasks s ! k)"
  shows "scan_tasks K jiffies (lowmem_deathpending_timeout s) (choose_min_score K P vm)
           (map (\<lambda>p. p\<lparr>TIF_MEMDIE := False\<rparr>) (tasks s)) 0
           (scan_init (choose_min_score K P vm))
         = scan_tasks K jiffies (lowmem_deathpending_timeout s) (choose_min_score K P vm)
             (tasks s) 0 (scan_init (choose_min_score K P vm))
       \<and> lowmem_shrink K P vm jiffies nr_to_scan s
         = (reclaimable vm - mm_rss (tasks s ! k), kill jiffies K k s)
       \<and> sigkill_sent (kill jiffies K k s) = sigkill_sent s @ [k]"
proof -
  let ?m = "choose_min_score K P vm"
  from assms(3) obtain v where
    v: "scan_tasks K jiffies (lowmem_deathpending_timeout s) ?m (tasks s) 0 (scan_init ?m)
          = Some v"
    using scan_tasks_completes
      [of K jiffies "lowmem_deathpending_timeout s" "tasks s" ?m 0 "scan_init ?m"]
    by auto
  from scan_tasks_last_best [OF v assms(4) assms(6) assms(7) assms(8)]
  have "selected v = Some k" "selected_tasksize v = mm_rss (tasks s ! k)" by simp_all
  with v have "lowmem_shrink K P vm jiffies nr_to_scan s
         = (reclaimable vm - mm_rss (tasks s ! k), kill jiffies K k s)"
    by (simp add: lowmem_shrink_scan [OF assms(1) assms(2)])
  then show ?thesis
    using scan_tasks_ignores_flag [OF assms(3)] by (simp add: kill_def)
qed

theorem pending_death_after_deadline_killed_again_witness:
  "lowmem_shrink linux_headers default_params (mk_vm 2000 5000) 1000 1
     (mk_state [mk_task 1 False 9 300] 0)
   = (4700, \<lparr>tasks = [mk_task 1 True 9 300], lowmem_deathpending_timeout = 1100,
             sigkill_sent = [0], compact_calls = 1\<rparr>)
   \<and> lowmem_shrink linux_headers default_params (mk_vm 2000 5000) 1101 1
       \<lparr>tasks = [mk_task 1 True 9 300], lowmem_deathpending_timeout = 1100,
        sigkill_sent = [0], compact_calls = 1\<rparr>
   = (4700, \<lparr>tasks = [mk_task 1 True 9 300], lowmem_deathpending_timeout = 1201,
             sigkill_sent = [0, 0], compact_calls = 2\<rparr>)"
proof -
  let ?s1 = "\<lparr>tasks = [mk_task 1 True 9 300], lowmem_deathpending_timeout = 1100,
              sigkill_sent = [0], compact_calls = 1\<rparr>"
  have first: "lowmem_shrink linux_headers default_params (mk_vm 2000 5000) 1000 1
      (mk_state [mk_task 1 False 9 300] 0) = (4700, ?s1)"
    by (simp add: run_defs)
  have m: "choose_min_score linux_headers default_params (mk_vm 2000 5000) = 0"
    by (simp add: run_defs)
  have a: "\<not> returns_at_109 linux_headers
             (choose_min_score linux_headers default_params (mk_vm 2000 5000))"
    by (simp add: m) (simp add: returns_at_109_def linux_headers_def)
  have t: "\<not> time_before_eq linux_headers 1101 (lowmem_deathpending_timeout ?s1)"
    by (simp add: linux_headers_def word_sle_eq)
  have "lowmem_shrink linux_headers default_params (mk_vm 2000 5000) 1101 1 ?s1
        = (reclaimable (mk_vm 2000 5000) - mm_rss (tasks ?s1 ! 0),
           kill 1101 linux_headers 0 ?s1)"
    using pending_death_after_deadline_killed_again
      [of 1 linux_headers default_params "mk_vm 2000 5000" 1101 ?s1 0, OF _ a t]
    by (simp add: m) (simp add: mk_task_def eligible_def word_sless_alt word_sle_eq)
  with first show ?thesis
    by (simp add: reclaimable_def mk_vm_def kill_def mk_task_def linux_headers_def)
qed

section \<open>The return of line 109\<close>

text \<open>
  \<open>min_score_adj\<close> starts as \<open>OOM_SCORE_ADJ_MAX + 1\<close> (line 78) and is compared with
  \<open>OOM_ADJUST_MAX + 1\<close> at line 109. What the function does when no threshold matched
  therefore depends on whether the two constants agree.
\<close>

lemma choose_min_score_no_match:
  "\<not> threshold_matched P vm \<Longrightarrow> choose_min_score K P vm = min_score_adj_init K"
  unfolding choose_min_score_def threshold_matched_def
  by (intro threshold_loop_no_match) auto

lemma no_match_returns_zero_iff_constants_agree:
  "\<not> threshold_matched P vm \<Longrightarrow>
   returns_at_109 K (choose_min_score K P vm)
     \<longleftrightarrow> sint (min_score_adj_init K) = OOM_ADJUST_MAX K + 1"
  by (simp add: choose_min_score_no_match returns_at_109_def)

lemma lowmem_shrink_at_109:
  "returns_at_109 K (choose_min_score K P vm) \<Longrightarrow>
   lowmem_shrink K P vm jiffies nr_to_scan s = (0, s)"
  by (simp add: lowmem_shrink_def)

lemma lowmem_shrink_query:
  "nr_to_scan \<le> 0 \<Longrightarrow>
   lowmem_shrink K P vm jiffies nr_to_scan s =
     (if returns_at_109 K (choose_min_score K P vm) then 0 else reclaimable vm, s)"
  by (simp add: lowmem_shrink_def Let_def)

text \<open>
  C2 on the code, with the header values 1000 and 15: the initial value 1001 is not the
  16 that line 109 tests for. With the module parameters as initialised and 20000 pages
  free, no threshold matches, and \<open>lowmem_shrink\<close> does not return 0 at once: for
  \<open>nr_to_scan = 0\<close> it returns the reclaimable total, 5000, and for \<open>nr_to_scan = 1\<close> it
  scans the process list and returns -1.
\<close>

theorem no_threshold_matched_not_zero:
  "\<not> threshold_matched default_params (mk_vm 20000 5000)
   \<and> lowmem_shrink linux_headers default_params (mk_vm 20000 5000) 1000 0
       (mk_state [mk_task 1 False 0 100] 0)
     = (5000, mk_state [mk_task 1 False 0 100] 0)
   \<and> lowmem_shrink linux_headers default_params (mk_vm 20000 5000) 1000 1
       (mk_state [mk_task 1 False 0 100] 0)
     = (- 1, mk_state [mk_task 1 False 0 100] 0)"
proof -
  have lt4: "\<And>i::nat. i < 4 \<longleftrightarrow> i = 0 \<or> i = 1 \<or> i = 2 \<or> i = 3" by auto
  have n: "nat (effective_array_size default_params) = 4"
    by (simp add: effective_array_size_def default_params_def)
  have "\<forall>i<4. \<not> other_free (mk_vm 20000 5000) + other_file (mk_vm 20000 5000)
                    <s lowmem_minfree default_params ! i"
    by (simp add: lt4 default_params_def mk_vm_def other_free_def other_file_def)
  then have "\<not> threshold_matched default_params (mk_vm 20000 5000)"
    by (simp only: threshold_matched_def n) blast
  then show ?thesis by (simp add: run_defs)
qed

text \<open>
  C7 on the code, with the header values 1000 and 15: when the matching table entry has
  the score 16, line 109 takes it for the unmatched case. With parameter \<open>adj\<close> set to
  0, 1, 6, 16 and 12000 pages free, the fourth threshold matches, the reclaimable total
  is 5000, and the query \<open>nr_to_scan = 0\<close> returns 0.
\<close>

theorem query_returns_zero_at_matched_score_16:
  "threshold_matched (default_params\<lparr>lowmem_adj := [0, 1, 6, 16, 0, 0]\<rparr>)
     (mk_vm 12000 5000)
   \<and> choose_min_score linux_headers (default_params\<lparr>lowmem_adj := [0, 1, 6, 16, 0, 0]\<rparr>)
       (mk_vm 12000 5000) = 16
   \<and> reclaimable (mk_vm 12000 5000) = 5000
   \<and> lowmem_shrink linux_headers (default_params\<lparr>lowmem_adj := [0, 1, 6, 16, 0, 0]\<rparr>)
       (mk_vm 12000 5000) 1000 0 (mk_state [mk_task 1 False 20 100] 0)
     = (0, mk_state [mk_task 1 False 20 100] 0)"
proof -
  have "threshold_matched (default_params\<lparr>lowmem_adj := [0, 1, 6, 16, 0, 0]\<rparr>)
     (mk_vm 12000 5000)"
    unfolding threshold_matched_def
    by (rule exI [of _ 3])
      (simp add: effective_array_size_def default_params_def mk_vm_def other_free_def
        other_file_def)
  then show ?thesis by (simp add: run_defs)
qed

text \<open>
  C6 on the code, with the header values 1000 and 15: with parameter \<open>adj\<close> set to
  0, 1, 6, 16 and 12000 pages free, the fourth threshold matches and \<open>min_score_adj\<close> is
  16; the process list holds two entries of scores 3 and 5, so none passes the filters
  and none is flagged, and a scan of it would run to the end with nothing selected. For
  \<open>nr_to_scan = 1\<close> the function nevertheless returns 0, at line 109, and not -1.
\<close>

theorem scan_request_returns_zero_at_matched_score_16:
  "threshold_matched (default_params\<lparr>lowmem_adj := [0, 1, 6, 16, 0, 0]\<rparr>)
     (mk_vm 12000 5000)
   \<and> choose_min_score linux_headers (default_params\<lparr>lowmem_adj := [0, 1, 6, 16, 0, 0]\<rparr>)
       (mk_vm 12000 5000) = 16
   \<and> scan_tasks linux_headers 1000 0 16 [mk_task 1 False 3 400, mk_task 2 False 5 300] 0
       (scan_init 16) = Some (scan_init 16)
   \<and> \<not> eligible 16 (mk_task 1 False 3 400) \<and> \<not> eligible 16 (mk_task 2 False 5 300)
   \<and> lowmem_shrink linux_headers (default_params\<lparr>lowmem_adj := [0, 1, 6, 16, 0, 0]\<rparr>)
       (mk_vm 12000 5000) 1000 1 (mk_state [mk_task 1 False 3 400, mk_task 2 False 5 300] 0)
     = (0, mk_state [mk_task 1 False 3 400, mk_task 2 False 5 300] 0)"
proof -
  have "threshold_matched (default_params\<lparr>lowmem_adj := [0, 1, 6, 16, 0, 0]\<rparr>)
     (mk_vm 12000 5000)"
    unfolding threshold_matched_def
    by (rule exI [of _ 3])
      (simp add: effective_array_size_def default_params_def mk_vm_def other_free_def
        other_file_def)
  then show ?thesis by (simp add: run_defs)
qed

end
